theory Spec2Isabelle
  imports Main
begin

section \<open>Regular expressions of the optimizer\<close>

text \<open>
  The optimizer (main.py) classifies and clusters events with Python regular expressions.
  Texts are lists of 8-bit characters. The patterns of the source use literals, the classes
  \<open>\s\<close> and \<open>\d\<close>, sequence, alternation and the greedy star; they are kept as data, the way
  the rule table of the source keeps them.
\<close>

datatype rx = Eps | Lit char | Space | Digit | Seq rx rx | Alt rx rx | Star rx

text \<open>
  Python's \<open>\s\<close> on str, for the code points below 256: tab, line feed, vertical tab, form
  feed, carriage return, the separators 28 to 31, blank, NEL (133) and NBSP (160).
  \<open>\d\<close> below 256 is 0 to 9.
\<close>

definition is_space :: "char \<Rightarrow> bool" where
  "is_space c = (let n = (of_char c :: nat)
                 in (9 \<le> n \<and> n \<le> 13) \<or> (28 \<le> n \<and> n \<le> 32) \<or> n = 133 \<or> n = 160)"

definition is_digit :: "char \<Rightarrow> bool" where
  "is_digit c = (let n = (of_char c :: nat) in 48 \<le> n \<and> n \<le> 57)"

text \<open>
  Case folding for \<open>re.IGNORECASE\<close>. Every letter of the source's patterns is an ASCII
  letter other than i, k and s, so that folding the ASCII range decides the same matches.
\<close>

definition lower :: "char \<Rightarrow> char" where
  "lower c = (let n = (of_char c :: nat) in if 65 \<le> n \<and> n \<le> 90 then char_of (n + 32) else c)"

definition lit_eq :: "bool \<Rightarrow> char \<Rightarrow> char \<Rightarrow> bool" where
  "lit_eq ic p c = (if ic then lower p = lower c else p = c)"

text \<open>
  The backtracking matcher: \<open>rx_ends ic r s\<close> lists what is left of \<open>s\<close> after each way
  of matching \<open>r\<close> at its start, in the order a backtracking engine tries them (left
  alternative first, the star greedy). An iteration of a star that consumes nothing is not
  repeated.
\<close>

function rx_ends :: "bool \<Rightarrow> rx \<Rightarrow> string \<Rightarrow> string list" where
  "rx_ends ic Eps s = [s]"
| "rx_ends ic (Lit p) s = (case s of [] \<Rightarrow> [] | c # cs \<Rightarrow> if lit_eq ic p c then [cs] else [])"
| "rx_ends ic Space s = (case s of [] \<Rightarrow> [] | c # cs \<Rightarrow> if is_space c then [cs] else [])"
| "rx_ends ic Digit s = (case s of [] \<Rightarrow> [] | c # cs \<Rightarrow> if is_digit c then [cs] else [])"
| "rx_ends ic (Seq a b) s = concat (map (rx_ends ic b) (rx_ends ic a s))"
| "rx_ends ic (Alt a b) s = rx_ends ic a s @ rx_ends ic b s"
| "rx_ends ic (Star a) s =
     concat (map (\<lambda>t. if length t < length s then rx_ends ic (Star a) t else [])
                 (rx_ends ic a s)) @ [s]"
  by pat_completeness auto
termination
  by (relation "measures [\<lambda>(ic, r, s). size r, \<lambda>(ic, r, s). length s]") auto

text \<open>\<open>re.search\<close>: a match starting at some position of the text, tried left to right.\<close>

fun re_search :: "bool \<Rightarrow> rx \<Rightarrow> string \<Rightarrow> bool" where
  "re_search ic r [] = (rx_ends ic r [] \<noteq> [])"
| "re_search ic r (c # cs) = (rx_ends ic r (c # cs) \<noteq> [] \<or> re_search ic r cs)"

fun lits :: "string \<Rightarrow> rx" where
  "lits [] = Eps"
| "lits [c] = Lit c"
| "lits (c # cs) = Seq (Lit c) (lits cs)"

section \<open>Data model\<close>

text \<open>
  An \<open>Arrow\<close> timestamp: the instant it denotes, by which timestamps compare, and the
  weekday of its civil date (Monday is 0, Sunday is 6), as \<open>weekday()\<close> gives it.
\<close>

record arrow =
  instant :: int
  weekday :: nat

text \<open>The fields of a calendar event that the optimizer reads or passes on.\<close>

record event =
  name :: string
  description :: "string option"
  location :: "string option"
  begin_time :: arrow
  end_time :: arrow

text \<open>The configuration is the dictionary \<open>json.load\<close> returns; its values are JSON values.\<close>

datatype json = JNull | JBool bool | JNum int | JStr string

type_synonym config = "string \<rightharpoonup> json"

definition cfg_get :: "config \<Rightarrow> string \<Rightarrow> json \<Rightarrow> json" where
  "cfg_get cfg k d = (case cfg k of None \<Rightarrow> d | Some v \<Rightarrow> v)"

text \<open>Python's truth value of a JSON value.\<close>

fun truthy :: "json \<Rightarrow> bool" where
  "truthy JNull = False"
| "truthy (JBool b) = b"
| "truthy (JNum n) = (n \<noteq> 0)"
| "truthy (JStr s) = (s \<noteq> [])"

text \<open>The optimizer object: its configuration and its ordered rule table.\<close>

record optimizer =
  config :: config
  group_detection_rules :: "(rx \<times> string) list"

text \<open>The configuration \<open>_load_config\<close> returns when there is no configuration file.\<close>

definition default_config :: config where
  "default_config =
     [''preferred_group'' \<mapsto> JStr ''A'',
      ''fallback_group_behavior'' \<mapsto> JStr ''use_all_if_missing'',
      ''optimization_mode'' \<mapsto> JStr ''earliest_lesson'',
      ''minimum_break_minutes'' \<mapsto> JNum 1,
      ''skip_weekends'' \<mapsto> JBool True,
      ''timezone'' \<mapsto> JStr ''Europe/Brussels'']"

section \<open>Group classifier\<close>

text \<open>The pattern \<open>(groep|Group)\s*X\<close> of \<open>_load_group_rules\<close>, for a letter \<open>X\<close>.\<close>

definition group_letter_rx :: "char \<Rightarrow> rx" where
  "group_letter_rx x = Seq (Alt (lits ''groep'') (lits ''Group'')) (Seq (Star Space) (Lit x))"

definition load_group_rules :: "(rx \<times> string) list" where
  "load_group_rules =
     [(group_letter_rx CHR ''A'', ''A''),
      (group_letter_rx CHR ''B'', ''B''),
      (group_letter_rx CHR ''C'', ''C''),
      (group_letter_rx CHR ''D'', ''D''),
      (group_letter_rx CHR ''E'', ''E''),
      (Alt (lits ''all'') (lits ''alle''), ''ALL''),
      (lits ''{N/A}'', ''NA'')]"

text \<open>\<open>f"{event.name} {event.description or ''}"\<close>\<close>

definition text_to_analyze :: "event \<Rightarrow> string" where
  "text_to_analyze e = name e @ '' '' @ (case description e of None \<Rightarrow> [] | Some d \<Rightarrow> d)"

text \<open>The loop of \<open>detect_group\<close>: the first rule whose pattern is found decides.\<close>

fun first_rule :: "(rx \<times> string) list \<Rightarrow> string \<Rightarrow> string" where
  "first_rule [] t = ''UNKNOWN''"
| "first_rule ((r, a) # rules) t = (if re_search True r t then a else first_rule rules t)"

definition detect_group :: "optimizer \<Rightarrow> event \<Rightarrow> string" where
  "detect_group self e = first_rule (group_detection_rules self) (text_to_analyze e)"

section \<open>Course grouper\<close>

text \<open>
  \<open>re.match(r'^(\d+)\s*-\s*', event.name)\<close>: the greedy digit run is tried longest first,
  and the first length for which the rest of the pattern matches is group 1.
\<close>

definition course_match :: "string \<Rightarrow> string option" where
  "course_match t =
     (case filter (\<lambda>rest. rx_ends False (Seq (Star Space) (Seq (Lit CHR ''-'') (Star Space))) rest \<noteq> [])
                  (rx_ends False (Seq Digit (Star Digit)) t) of
        [] \<Rightarrow> None
      | rest # _ \<Rightarrow> Some (take (length t - length rest) t))"

definition course_code_of :: "event \<Rightarrow> string" where
  "course_code_of e = (case course_match (name e) of Some c \<Rightarrow> c | None \<Rightarrow> ''UNKNOWN'')"

text \<open>
  The dictionary \<open>course_groups\<close> keeps insertion order, so it is an association list:
  a new key goes to the end, an event is appended to the list of its key.
\<close>

definition add_to_course :: "(string \<times> event list) list \<Rightarrow> string \<Rightarrow> event \<Rightarrow> (string \<times> event list) list" where
  "add_to_course groups code e =
     (let groups' = (if code \<in> set (map fst groups) then groups else groups @ [(code, [])])
      in map (\<lambda>(k, v). if k = code then (k, v @ [e]) else (k, v)) groups')"

definition group_events_by_course :: "event list \<Rightarrow> (string \<times> event list) list" where
  "group_events_by_course events = foldl (\<lambda>groups e. add_to_course groups (course_code_of e) e) [] events"

section \<open>Selector\<close>

text \<open>
  Python's \<open>min\<close> and \<open>max\<close> with a key, on a list with a first element: the element kept
  is replaced only by a strictly smaller (larger) one.
\<close>

definition py_min :: "('a \<Rightarrow> int) \<Rightarrow> 'a \<Rightarrow> 'a list \<Rightarrow> 'a" where
  "py_min key x xs = foldl (\<lambda>best y. if key y < key best then y else best) x xs"

definition py_max :: "('a \<Rightarrow> int) \<Rightarrow> 'a \<Rightarrow> 'a list \<Rightarrow> 'a" where
  "py_max key x xs = foldl (\<lambda>best y. if key y > key best then y else best) x xs"

text \<open>The candidate list \<open>events_to_choose_from\<close> of \<open>select_optimal_event\<close>.\<close>

definition events_to_choose_from :: "optimizer \<Rightarrow> event list \<Rightarrow> event list" where
  "events_to_choose_from self events =
     (let events_with_groups = map (\<lambda>e. (e, detect_group self e)) events;
          preferred_group = cfg_get (config self) ''preferred_group'' (JStr ''A'');
          preferred_events = map fst (filter (\<lambda>(e, g). JStr g = preferred_group) events_with_groups)
      in if preferred_events \<noteq> [] then preferred_events
         else if config self ''fallback_group_behavior'' = Some (JStr ''use_all_if_missing'') then
           (let all_events = map fst (filter (\<lambda>(e, g). g = ''ALL'') events_with_groups)
            in if all_events = [] then map fst events_with_groups else all_events)
         else map fst events_with_groups)"

text \<open>\<open>select_optimal_event\<close> returns \<open>None\<close> for an empty list, an event otherwise.\<close>

definition select_optimal_event :: "optimizer \<Rightarrow> event list \<Rightarrow> string \<Rightarrow> event option" where
  "select_optimal_event self events course_code =
     (case events of
        [] \<Rightarrow> None
      | first # _ \<Rightarrow>
          (case events_to_choose_from self events of
             [] \<Rightarrow> Some first
           | c # cs \<Rightarrow>
               (let optimization_mode = cfg_get (config self) ''optimization_mode'' (JStr ''earliest_lesson'')
                in if optimization_mode = JStr ''earliest_lesson'' then
                     Some (py_min (\<lambda>e. instant (begin_time e)) c cs)
                   else if optimization_mode = JStr ''latest_lesson'' then
                     Some (py_max (\<lambda>e. instant (begin_time e)) c cs)
                   else Some c)))"

text \<open>
  What a call of \<open>select_optimal_event\<close> does: it raises an exception, named here by its
  class, or it returns a value. The body of the function has no \<open>raise\<close> statement and
  the source defines no exception class, so every call returns; for the empty list the value
  returned is Python's \<open>None\<close>, which the caller in \<open>optimize_schedule\<close> tests with
  \<open>if optimal_event:\<close> and passes over.
\<close>

datatype 'a outcome = Raised string | Returned 'a

definition select_optimal_event_outcome :: "optimizer \<Rightarrow> event list \<Rightarrow> string \<Rightarrow> event option outcome" where
  "select_optimal_event_outcome self events course_code = Returned (select_optimal_event self events course_code)"

section \<open>Reduction pipeline\<close>

definition should_skip_weekend :: "optimizer \<Rightarrow> event \<Rightarrow> bool" where
  "should_skip_weekend self e =
     (if \<not> truthy (cfg_get (config self) ''skip_weekends'' (JBool True)) then False
      else weekday (begin_time e) \<ge> 5)"

text \<open>
  \<open>optimize_schedule\<close>, on the events of the calendar in iteration order; the result is the
  list \<open>optimized_events\<close> from which the returned calendar is filled. An event object is
  true in Python, so the test \<open>if optimal_event:\<close> drops the value \<open>None\<close> and
  nothing else.
\<close>

definition optimize_schedule :: "optimizer \<Rightarrow> event list \<Rightarrow> event list" where
  "optimize_schedule self calendar_events =
     (let events = filter (\<lambda>e. \<not> should_skip_weekend self e) calendar_events;
          course_groups = group_events_by_course events
      in concat (map (\<lambda>(course_code, course_events).
                        case select_optimal_event self course_events course_code of
                          None \<Rightarrow> []
                        | Some optimal_event \<Rightarrow> [optimal_event])
                     course_groups))"

text \<open>
  What a call of \<open>optimize_schedule\<close> does. The function has no \<open>raise\<close> statement
  and no test of an event's times; it reads the start of an event (its weekday, and its
  instant as the key of \<open>min\<close> and \<open>max\<close>) and never the end.
\<close>

definition optimize_schedule_outcome :: "optimizer \<Rightarrow> event list \<Rightarrow> event list outcome" where
  "optimize_schedule_outcome self calendar_events = Returned (optimize_schedule self calendar_events)"

section \<open>Reference definitions\<close>

text \<open>
  The definitions of this section are not translations of the source: they say in direct
  terms, without regular expressions, what the specification says the patterns mean. The
  functions of the source are compared with them below.
\<close>

text \<open>Removing a prefix, letters compared without regard to case.\<close>

fun spec_strip :: "string \<Rightarrow> string \<Rightarrow> string option" where
  "spec_strip [] s = Some s"
| "spec_strip (p # ps) [] = None"
| "spec_strip (p # ps) (c # cs) = (if lower p = lower c then spec_strip ps cs else None)"

text \<open>A dash follows, after optional whitespace.\<close>

definition dash_follows :: "string \<Rightarrow> bool" where
  "dash_follows rest = (case dropWhile is_space rest of [] \<Rightarrow> False | c # _ \<Rightarrow> c = CHR ''-'')"

text \<open>
  The course key of a title: its leading run of decimal digits when the run is not empty
  and is followed by optional whitespace and a dash, the sentinel otherwise.
\<close>

definition spec_course_key :: "string \<Rightarrow> string" where
  "spec_course_key t =
     (if takeWhile is_digit t \<noteq> [] \<and> dash_follows (dropWhile is_digit t)
      then takeWhile is_digit t else ''UNKNOWN'')"

text \<open>
  ``group'' or ``groep'' followed, after optional whitespace, by the letter \<open>x\<close>, at the
  start of a text and anywhere in it; a word occurring anywhere in a text.
\<close>

definition spec_letter_follows :: "char \<Rightarrow> string \<Rightarrow> bool" where
  "spec_letter_follows x r = (case dropWhile is_space r of [] \<Rightarrow> False | c # _ \<Rightarrow> lower x = lower c)"

definition spec_group_phrase_at :: "char \<Rightarrow> string \<Rightarrow> bool" where
  "spec_group_phrase_at x s =
     ((case spec_strip ''groep'' s of None \<Rightarrow> False | Some r \<Rightarrow> spec_letter_follows x r) \<or>
      (case spec_strip ''group'' s of None \<Rightarrow> False | Some r \<Rightarrow> spec_letter_follows x r))"

fun spec_somewhere :: "(string \<Rightarrow> bool) \<Rightarrow> string \<Rightarrow> bool" where
  "spec_somewhere P [] = P []"
| "spec_somewhere P (c # cs) = (P (c # cs) \<or> spec_somewhere P cs)"

definition spec_has_group_phrase :: "char \<Rightarrow> string \<Rightarrow> bool" where
  "spec_has_group_phrase x t = spec_somewhere (spec_group_phrase_at x) t"

definition spec_contains :: "string \<Rightarrow> string \<Rightarrow> bool" where
  "spec_contains w t = spec_somewhere (\<lambda>s. spec_strip w s \<noteq> None) t"

text \<open>
  The label the specification gives for the default rule table: the first of the letters
  A to E whose phrase occurs, else ALL when ``all'' occurs, else NA when the token
  \<open>{N/A}\<close> occurs, else UNKNOWN.
\<close>

definition spec_classify :: "string \<Rightarrow> string" where
  "spec_classify t =
     (case find (\<lambda>x. spec_has_group_phrase x t) ''ABCDE'' of
        Some x \<Rightarrow> [x]
      | None \<Rightarrow> if spec_contains ''all'' t then ''ALL''
                else if spec_contains ''{N/A}'' t then ''NA'' else ''UNKNOWN'')"

text \<open>
  The keys of a feed in the order in which they are first seen, and the clusters the
  specification describes: one per key in that order, each with the events of its key in
  feed order.
\<close>

fun spec_first_seen :: "'a list \<Rightarrow> 'a list" where
  "spec_first_seen [] = []"
| "spec_first_seen (x # xs) = x # removeAll x (spec_first_seen xs)"

definition spec_groups :: "('a \<Rightarrow> 'k) \<Rightarrow> 'a list \<Rightarrow> ('k \<times> 'a list) list" where
  "spec_groups f es = map (\<lambda>k. (k, filter (\<lambda>e. f e = k) es)) (spec_first_seen (map f es))"



section \<open>Sample data\<close>

definition default_optimizer :: optimizer where
  "default_optimizer = \<lparr>config = default_config, group_detection_rules = load_group_rules\<rparr>"

definition mk_event :: "string \<Rightarrow> string option \<Rightarrow> int \<Rightarrow> nat \<Rightarrow> int \<Rightarrow> event" where
  "mk_event n d b w e =
     \<lparr>name = n, description = d, location = None,
      begin_time = \<lparr>instant = b, weekday = w\<rparr>, end_time = \<lparr>instant = e, weekday = w\<rparr>\<rparr>"

text \<open>An event in the shape of the timetable export, as in the test data of the repository.\<close>

definition werkzitting_a :: event where
  "werkzitting_a = mk_event ''5417 - Werkzitting 1HW A''
     (Some ''03-005417 groep A, {N/A}'') 810 2 900"

text \<open>An optimizer with the default rule table and a given configuration.\<close>

definition with_config :: "config \<Rightarrow> optimizer" where
  "with_config cfg = \<lparr>config = cfg, group_detection_rules = load_group_rules\<rparr>"

text \<open>
  Events of one course; the times are numbers of minutes, the weekday counts from
  Monday = 0.
\<close>

definition ev_a :: event where "ev_a = mk_event ''5417 - groep A'' None 810 2 900"

definition ev_a_twin :: event where "ev_a_twin = mk_event ''5417 - groep A'' None 810 2 930"

definition ev_a_mid :: event where "ev_a_mid = mk_event ''5417 - groep A'' None 850 2 940"

definition ev_a_late :: event where "ev_a_late = mk_event ''5417 - groep A'' None 900 2 990"

definition ev_a_late_twin :: event where "ev_a_late_twin = mk_event ''5417 - groep A'' None 900 2 1020"

definition ev_b :: event where "ev_b = mk_event ''5417 - groep B'' None 810 2 900"

definition ev_c :: event where "ev_c = mk_event ''5417 - groep C'' None 900 2 990"

definition ev_all :: event where "ev_all = mk_event ''5417 - all'' None 540 3 660"

definition ev_all_late :: event where "ev_all_late = mk_event ''5417 - all'' None 960 3 1050"

definition tied :: "event list" where
  "tied = [ev_a_mid, ev_a, ev_a_twin, ev_a_late, ev_a_late_twin]"

text \<open>Configurations that differ from the default one in a single key.\<close>

definition latest_config :: config where
  "latest_config = default_config(''optimization_mode'' \<mapsto> JStr ''latest_lesson'')"

definition first_seen_config :: config where
  "first_seen_config = default_config(''optimization_mode'' \<mapsto> JStr ''first_seen'')"

definition use_any_config :: config where
  "use_any_config = default_config(''fallback_group_behavior'' \<mapsto> JStr ''use_any_if_missing'')"

definition no_fallback_config :: config where
  "no_fallback_config = [''preferred_group'' \<mapsto> JStr ''A'', ''optimization_mode'' \<mapsto> JStr ''earliest_lesson'']"

text \<open>The start of an event, the key of \<open>min\<close> and \<open>max\<close> in the selector.\<close>

abbreviation (input) start_of :: "event \<Rightarrow> int" where
  "start_of \<equiv> \<lambda>e. instant (begin_time e)"

text \<open>
  Titles with and without a course code: leading zeros, a dash with no space before it,
  digits that no dash follows.
\<close>

definition k007 :: event where "k007 = mk_event ''007 - Ethiek'' None 600 0 690"

definition k7 :: event where "k7 = mk_event ''7 - Ethiek'' None 600 1 690"

definition seminar :: event where "seminar = mk_event ''Seminar'' None 600 1 690"

definition k007_lab :: event where "k007_lab = mk_event ''007-Practicum'' None 700 3 790"

definition lunch :: event where "lunch = mk_event ''12 uur lunch'' None 720 3 780"

text \<open>
  A feed with an event on a Saturday, a second course and a title without a code, and a
  configuration that keeps the weekend.
\<close>

definition ev_sat :: event where "ev_sat = mk_event ''5417 - groep A'' None 300 5 390"

definition ev_other :: event where "ev_other = mk_event ''1002 - all'' None 480 0 570"


definition keep_weekends_config :: config where
  "keep_weekends_config = default_config(''skip_weekends'' \<mapsto> JBool False)"

text \<open>An event that ends before it starts, and events with the reverse phrasing.\<close>

definition ev_backwards :: event where "ev_backwards = mk_event ''5417 - groep A'' None 900 2 810"



section \<open>The matcher on the patterns of the source\<close>

text \<open>
  The equation of the star and the literal sequences are unfolded by hand only, so that the
  simplifier meets the patterns in the shape the lemmas below expect.
\<close>

declare rx_ends.simps(7) [simp del]

lemma rx_ends_lits: "rx_ends True (lits p) s = (case spec_strip p s of None \<Rightarrow> [] | Some r \<Rightarrow> [r])"
  by (induction p arbitrary: s rule: lits.induct) (auto simp: lit_eq_def split: list.splits option.splits)

declare lits.simps [simp del]

lemma rx_ends_Star_Space_Nil: "rx_ends ic (Star Space) [] = [[]]"
  by (simp add: rx_ends.simps(7))

lemma rx_ends_Star_Space_Cons:
  "rx_ends ic (Star Space) (c # cs) = (if is_space c then rx_ends ic (Star Space) cs @ [c # cs] else [c # cs])"
  by (simp add: rx_ends.simps(7) [of ic Space "c # cs"])

lemma rx_ends_Star_Digit_Cons:
  "rx_ends ic (Star Digit) (c # cs) = (if is_digit c then rx_ends ic (Star Digit) cs @ [c # cs] else [c # cs])"
  by (simp add: rx_ends.simps(7) [of ic Digit "c # cs"])

lemma rx_ends_Seq_nonempty:
  "(rx_ends ic (Seq a b) s \<noteq> []) = (\<exists>m \<in> set (rx_ends ic a s). rx_ends ic b m \<noteq> [])"
  by simp

lemma star_space_then:
  assumes "\<And>c cs. is_space c \<Longrightarrow> \<not> K (c # cs)"
  shows "(\<exists>m \<in> set (rx_ends ic (Star Space) s). K m) = K (dropWhile is_space s)"
  using assms by (induction s) (auto simp del: rx_ends.simps simp add: rx_ends_Star_Space_Nil rx_ends_Star_Space_Cons)

lemma rx_ends_Star_Digit_Nil: "rx_ends ic (Star Digit) [] = [[]]"
  by (simp add: rx_ends.simps(7))

lemma filter_star_digit:
  assumes "\<And>c cs. is_digit c \<Longrightarrow> \<not> Q (c # cs)"
  shows "filter Q (rx_ends ic (Star Digit) s) = (if Q (dropWhile is_digit s) then [dropWhile is_digit s] else [])"
  using assms by (induction s) (auto simp del: rx_ends.simps simp add: rx_ends_Star_Digit_Nil rx_ends_Star_Digit_Cons)

lemma digit_not_space: "is_digit c \<Longrightarrow> \<not> is_space c"
  by (auto simp: is_digit_def is_space_def Let_def)

lemma digit_not_dash: "is_digit c \<Longrightarrow> c \<noteq> CHR ''-''"
  by (auto simp: is_digit_def)

lemma dash_not_space: "\<not> is_space CHR ''-''"
  by (simp add: is_space_def)

lemma rx_ends_Star_nonempty: "rx_ends ic (Star a) s \<noteq> []"
  by (simp add: rx_ends.simps(7) [of ic a s])

lemma dash_tail_nonempty:
  "(rx_ends False (Seq (Lit CHR ''-'') (Star Space)) m \<noteq> []) = (case m of [] \<Rightarrow> False | c # _ \<Rightarrow> c = CHR ''-'')"
  by (cases m) (auto simp: lit_eq_def rx_ends_Star_nonempty)

lemma rest_pattern_char:
  "(rx_ends False (Seq (Star Space) (Seq (Lit CHR ''-'') (Star Space))) rest \<noteq> []) = dash_follows rest"
proof -
  let ?K = "\<lambda>m. rx_ends False (Seq (Lit CHR ''-'') (Star Space)) m \<noteq> []"
  have "\<And>c cs. is_space c \<Longrightarrow> \<not> ?K (c # cs)"
    using dash_not_space by (auto simp: lit_eq_def)
  then have "(\<exists>m \<in> set (rx_ends False (Star Space) rest). ?K m) = ?K (dropWhile is_space rest)"
    by (rule star_space_then)
  then show ?thesis
    unfolding rx_ends_Seq_nonempty [of False "Star Space"] dash_follows_def dash_tail_nonempty .
qed

lemma dash_follows_digit: "is_digit c \<Longrightarrow> \<not> dash_follows (c # cs)"
  by (simp add: dash_follows_def digit_not_space digit_not_dash)

lemma take_length_dropWhile: "take (length t - length (dropWhile P t)) t = takeWhile P t"
proof -
  have "length (takeWhile P t @ dropWhile P t) = length t" by simp
  then have "length (takeWhile P t) + length (dropWhile P t) = length t"
    by (simp only: length_append)
  then have len: "length t - length (dropWhile P t) = length (takeWhile P t)" by simp
  have "takeWhile P t = take (length (takeWhile P t)) t"
    using append_eq_conv_conj [of "takeWhile P t" "dropWhile P t" t]
          takeWhile_dropWhile_id [of P t] by blast
  then show ?thesis unfolding len by simp
qed

lemma course_match_char:
  "course_match t =
     (if takeWhile is_digit t \<noteq> [] \<and> dash_follows (dropWhile is_digit t)
      then Some (takeWhile is_digit t) else None)"
proof (cases t)
  case Nil
  then show ?thesis by (simp add: course_match_def)
next
  case (Cons c cs)
  show ?thesis
  proof (cases "is_digit c")
    case False
    then show ?thesis using Cons by (simp add: course_match_def)
  next
    case True
    have ends: "rx_ends False (Seq Digit (Star Digit)) t = rx_ends False (Star Digit) cs"
      using Cons True by simp
    have flt: "filter dash_follows (rx_ends False (Star Digit) cs) =
               (if dash_follows (dropWhile is_digit cs) then [dropWhile is_digit cs] else [])"
      by (rule filter_star_digit) (rule dash_follows_digit)
    have dw: "dropWhile is_digit cs = dropWhile is_digit t" using Cons True by simp
    have tw: "takeWhile is_digit t \<noteq> []" using Cons True by simp
    have cm: "course_match t =
          (case filter dash_follows (rx_ends False (Star Digit) cs) of
             [] \<Rightarrow> None | rest # _ \<Rightarrow> Some (take (length t - length rest) t))"
      unfolding course_match_def rest_pattern_char ends ..
    show ?thesis
    proof (cases "dash_follows (dropWhile is_digit t)")
      case True
      then show ?thesis unfolding cm flt dw using tw by (simp add: take_length_dropWhile)
    next
      case False
      then show ?thesis unfolding cm flt dw by simp
    qed
  qed
qed

lemma course_code_of_char: "course_code_of e = spec_course_key (name e)"
  by (simp add: course_code_of_def course_match_char spec_course_key_def)

section \<open>The classifier on the default rule table\<close>

lemma re_search_somewhere:
  assumes "\<And>u. (rx_ends ic r u \<noteq> []) = P u"
  shows "re_search ic r s = spec_somewhere P s"
  using assms by (induction s) simp_all

lemma lower_space: "is_space c \<Longrightarrow> lower c = c"
  by (auto simp: is_space_def lower_def Let_def)

lemma lower_G: "lower CHR ''G'' = lower CHR ''g''"
  by code_simp

lemma strip_Group: "spec_strip ''Group'' s = spec_strip ''group'' s"
proof (cases s)
  case Nil then show ?thesis by simp
next
  case (Cons c cs) then show ?thesis by (simp add: lower_G)
qed

lemma letter_tail:
  assumes "\<not> is_space (lower x)"
  shows "(rx_ends True (Seq (Star Space) (Lit x)) m \<noteq> []) = spec_letter_follows x m"
proof -
  let ?K = "\<lambda>u. rx_ends True (Lit x) u \<noteq> []"
  have K: "\<And>u. ?K u = (case u of [] \<Rightarrow> False | c # _ \<Rightarrow> lower x = lower c)"
    by (simp add: lit_eq_def split: list.splits)
  have "\<And>c cs. is_space c \<Longrightarrow> \<not> ?K (c # cs)"
    using assms lower_space by (auto simp: lit_eq_def)
  then have "(\<exists>u \<in> set (rx_ends True (Star Space) m). ?K u) = ?K (dropWhile is_space m)"
    by (rule star_space_then)
  then show ?thesis
    unfolding rx_ends_Seq_nonempty [of True "Star Space"] spec_letter_follows_def K .
qed

lemma group_letter_at:
  assumes "\<not> is_space (lower x)"
  shows "(rx_ends True (group_letter_rx x) s \<noteq> []) = spec_group_phrase_at x s"
proof -
  have "(rx_ends True (group_letter_rx x) s \<noteq> []) =
        (\<exists>m \<in> set (rx_ends True (Alt (lits ''groep'') (lits ''Group'')) s).
           rx_ends True (Seq (Star Space) (Lit x)) m \<noteq> [])"
    unfolding group_letter_rx_def by (rule rx_ends_Seq_nonempty)
  also have "\<dots> = (\<exists>m \<in> set (rx_ends True (lits ''groep'') s @ rx_ends True (lits ''Group'') s).
                     spec_letter_follows x m)"
    unfolding rx_ends.simps(6) letter_tail [OF assms] ..
  also have "\<dots> = spec_group_phrase_at x s"
    unfolding rx_ends_lits strip_Group spec_group_phrase_at_def by (auto split: option.splits)
  finally show ?thesis .
qed

lemma re_search_group_letter:
  assumes "\<not> is_space (lower x)"
  shows "re_search True (group_letter_rx x) t = spec_has_group_phrase x t"
  unfolding spec_has_group_phrase_def
  by (rule re_search_somewhere) (rule group_letter_at [OF assms])

lemma re_search_lits: "re_search True (lits w) t = spec_contains w t"
  unfolding spec_contains_def
  by (rule re_search_somewhere) (simp add: rx_ends_lits split: option.splits)

lemma strip_alle: "spec_strip ''alle'' s \<noteq> None \<Longrightarrow> spec_strip ''all'' s \<noteq> None"
  by (cases s; cases "tl s"; cases "tl (tl s)") (auto split: if_splits)

lemma re_search_all: "re_search True (Alt (lits ''all'') (lits ''alle'')) t = spec_contains ''all'' t"
  unfolding spec_contains_def
proof (rule re_search_somewhere)
  fix u
  have alt: "rx_ends True (Alt (lits ''all'') (lits ''alle'')) u =
             rx_ends True (lits ''all'') u @ rx_ends True (lits ''alle'') u"
    by (rule rx_ends.simps(6))
  show "(rx_ends True (Alt (lits ''all'') (lits ''alle'')) u \<noteq> []) = (spec_strip ''all'' u \<noteq> None)"
    unfolding alt rx_ends_lits using strip_alle [of u]
    by (cases "spec_strip ''all'' u"; cases "spec_strip ''alle'' u") simp_all
qed

lemma letters_not_space:
  "\<not> is_space (lower CHR ''A'')" "\<not> is_space (lower CHR ''B'')" "\<not> is_space (lower CHR ''C'')"
  "\<not> is_space (lower CHR ''D'')" "\<not> is_space (lower CHR ''E'')"
  by code_simp+

lemma first_rule_default: "first_rule load_group_rules t = spec_classify t"
  unfolding load_group_rules_def first_rule.simps re_search_all re_search_lits
    re_search_group_letter [OF letters_not_space(1)] re_search_group_letter [OF letters_not_space(2)]
    re_search_group_letter [OF letters_not_space(3)] re_search_group_letter [OF letters_not_space(4)]
    re_search_group_letter [OF letters_not_space(5)] spec_classify_def
  by simp

lemma detect_group_default:
  "group_detection_rules self = load_group_rules \<Longrightarrow> detect_group self e = spec_classify (text_to_analyze e)"
  by (simp add: detect_group_def first_rule_default)

lemma find_SomeD: "find P xs = Some y \<Longrightarrow> y \<in> set xs \<and> P y"
  by (induction xs) (auto split: if_splits)

lemma find_only:
  "x \<in> set xs \<Longrightarrow> P x \<Longrightarrow> \<forall>y \<in> set xs. y \<noteq> x \<longrightarrow> \<not> P y \<Longrightarrow> find P xs = Some x"
  by (induction xs) auto

section \<open>Claims about the group classifier\<close>

text \<open>
  C7. With the default rule table, an occurrence whose text (title, blank, description)
  contains a lettered group phrase and the token \<open>{N/A}\<close> is never labelled NA: its label
  is the letter of a lettered phrase of the text, and it is the letter \<open>x\<close> when no other
  letter has a phrase in the text. The letter rules come before the NA rule in the table
  and the first matching rule decides.
\<close>

theorem letter_rule_precedes_na:
  assumes rules: "group_detection_rules self = load_group_rules"
    and x: "x \<in> set ''ABCDE''"
    and phrase: "spec_has_group_phrase x (text_to_analyze e)"
    and na: "spec_contains ''{N/A}'' (text_to_analyze e)"
  shows "detect_group self e \<noteq> ''NA'' \<and>
         (\<exists>y \<in> set ''ABCDE''. detect_group self e = [y] \<and> spec_has_group_phrase y (text_to_analyze e)) \<and>
         ((\<forall>y \<in> set ''ABCDE''. y \<noteq> x \<longrightarrow> \<not> spec_has_group_phrase y (text_to_analyze e))
            \<longrightarrow> detect_group self e = [x])"
proof -
  let ?t = "text_to_analyze e"
  let ?P = "\<lambda>y. spec_has_group_phrase y ?t"
  have "find ?P ''ABCDE'' \<noteq> None"
    using x phrase unfolding find_None_iff by blast
  then obtain y where y: "find ?P ''ABCDE'' = Some y" by blast
  have res: "detect_group self e = [y]"
    using y by (simp add: detect_group_default [OF rules] spec_classify_def)
  have mem: "y \<in> set ''ABCDE'' \<and> ?P y" using find_SomeD [OF y] .
  have only: "detect_group self e = [x]" if "\<forall>y \<in> set ''ABCDE''. y \<noteq> x \<longrightarrow> \<not> ?P y"
    using find_only [of x "''ABCDE''" ?P, OF x phrase that] y res by simp
  show ?thesis using res mem only by auto
qed

theorem letter_rule_precedes_na_witness:
  "spec_has_group_phrase CHR ''A'' (text_to_analyze werkzitting_a) \<and>
   spec_contains ''{N/A}'' (text_to_analyze werkzitting_a) \<and>
   detect_group default_optimizer werkzitting_a = ''A''"
proof -
  have rules: "group_detection_rules default_optimizer = load_group_rules"
    by (simp add: default_optimizer_def)
  have x: "CHR ''A'' \<in> set ''ABCDE''" by simp
  have phrase: "spec_has_group_phrase CHR ''A'' (text_to_analyze werkzitting_a)" by code_simp
  have na: "spec_contains ''{N/A}'' (text_to_analyze werkzitting_a)" by code_simp
  have only: "\<forall>y \<in> set ''ABCDE''. y \<noteq> CHR ''A'' \<longrightarrow> \<not> spec_has_group_phrase y (text_to_analyze werkzitting_a)"
    by code_simp
  show ?thesis
    using letter_rule_precedes_na [OF rules x phrase na] phrase na only by blast
qed

section \<open>Minimum and maximum as Python computes them\<close>

lemma py_min_snoc:
  "py_min key c (cs @ [y]) = (if key y < key (py_min key c cs) then y else py_min key c cs)"
  by (simp add: py_min_def)

lemma py_max_snoc:
  "py_max key c (cs @ [y]) = (if key y > key (py_max key c cs) then y else py_max key c cs)"
  by (simp add: py_max_def)

lemma py_min_split:
  "\<exists>pre post. c # cs = pre @ py_min key c cs # post \<and>
      (\<forall>d \<in> set pre. key (py_min key c cs) < key d) \<and>
      (\<forall>d \<in> set post. key (py_min key c cs) \<le> key d)"
proof (induction cs rule: rev_induct)
  case Nil
  have "[c] = [] @ py_min key c [] # [] \<and>
        (\<forall>d \<in> set []. key (py_min key c []) < key d) \<and>
        (\<forall>d \<in> set []. key (py_min key c []) \<le> key d)"
    by (simp add: py_min_def)
  then show ?case by blast
next
  case (snoc y cs)
  let ?b = "py_min key c cs"
  let ?r = "py_min key c (cs @ [y])"
  from snoc obtain pre post where
    sp: "c # cs = pre @ ?b # post" and
    lt: "\<forall>d \<in> set pre. key ?b < key d" and
    le: "\<forall>d \<in> set post. key ?b \<le> key d" by blast
  show ?case
  proof (cases "key y < key ?b")
    case True
    then have r: "?r = y" by (simp add: py_min_snoc)
    have "\<forall>d \<in> set (pre @ ?b # post). key y < key d"
      using True lt le by auto
    then have all: "\<forall>d \<in> set (c # cs). key ?r < key d"
      unfolding r sp [symmetric] .
    have "c # cs @ [y] = (c # cs) @ ?r # [] \<and> (\<forall>d \<in> set (c # cs). key ?r < key d) \<and>
          (\<forall>d \<in> set []. key ?r \<le> key d)"
      using all r by simp
    then show ?thesis by blast
  next
    case False
    then have r: "?r = ?b" by (simp add: py_min_snoc)
    have "c # cs @ [y] = pre @ ?b # (post @ [y])" using sp by simp
    moreover have "\<forall>d \<in> set (post @ [y]). key ?b \<le> key d" using le False by auto
    ultimately have "c # cs @ [y] = pre @ ?r # (post @ [y]) \<and> (\<forall>d \<in> set pre. key ?r < key d) \<and>
          (\<forall>d \<in> set (post @ [y]). key ?r \<le> key d)"
      unfolding r using lt by blast
    then show ?thesis by blast
  qed
qed

lemma py_max_split:
  "\<exists>pre post. c # cs = pre @ py_max key c cs # post \<and>
      (\<forall>d \<in> set pre. key d < key (py_max key c cs)) \<and>
      (\<forall>d \<in> set post. key d \<le> key (py_max key c cs))"
proof (induction cs rule: rev_induct)
  case Nil
  have "[c] = [] @ py_max key c [] # [] \<and>
        (\<forall>d \<in> set []. key d < key (py_max key c [])) \<and>
        (\<forall>d \<in> set []. key d \<le> key (py_max key c []))"
    by (simp add: py_max_def)
  then show ?case by blast
next
  case (snoc y cs)
  let ?b = "py_max key c cs"
  let ?r = "py_max key c (cs @ [y])"
  from snoc obtain pre post where
    sp: "c # cs = pre @ ?b # post" and
    lt: "\<forall>d \<in> set pre. key d < key ?b" and
    le: "\<forall>d \<in> set post. key d \<le> key ?b" by blast
  show ?case
  proof (cases "key y > key ?b")
    case True
    then have r: "?r = y" by (simp add: py_max_snoc)
    have "\<forall>d \<in> set (pre @ ?b # post). key d < key y"
      using True lt le by auto
    then have all: "\<forall>d \<in> set (c # cs). key d < key ?r"
      unfolding r sp [symmetric] .
    have "c # cs @ [y] = (c # cs) @ ?r # [] \<and> (\<forall>d \<in> set (c # cs). key d < key ?r) \<and>
          (\<forall>d \<in> set []. key d \<le> key ?r)"
      using all r by simp
    then show ?thesis by blast
  next
    case False
    then have r: "?r = ?b" by (simp add: py_max_snoc)
    have "c # cs @ [y] = pre @ ?b # (post @ [y])" using sp by simp
    moreover have "\<forall>d \<in> set (post @ [y]). key d \<le> key ?b" using le False by auto
    ultimately have "c # cs @ [y] = pre @ ?r # (post @ [y]) \<and> (\<forall>d \<in> set pre. key d < key ?r) \<and>
          (\<forall>d \<in> set (post @ [y]). key d \<le> key ?r)"
      unfolding r using lt by blast
    then show ?thesis by blast
  qed
qed

lemma py_min_mem: "py_min key c cs \<in> set (c # cs)"
proof -
  obtain pre post where sp: "c # cs = pre @ py_min key c cs # post"
    using py_min_split [of c cs key] by blast
  have "py_min key c cs \<in> set (pre @ py_min key c cs # post)" by simp
  then show ?thesis by (simp only: sp [symmetric])
qed

lemma py_max_mem: "py_max key c cs \<in> set (c # cs)"
proof -
  obtain pre post where sp: "c # cs = pre @ py_max key c cs # post"
    using py_max_split [of c cs key] by blast
  have "py_max key c cs \<in> set (pre @ py_max key c cs # post)" by simp
  then show ?thesis by (simp only: sp [symmetric])
qed

section \<open>The candidate list and the selected event\<close>

lemma pairs_filter:
  "map fst (filter (\<lambda>(e, g). Q g) (map (\<lambda>e. (e, f e)) xs)) = filter (\<lambda>e. Q (f e)) xs"
  by (induction xs) auto

lemma pairs_all: "map fst (map (\<lambda>e. (e, f e)) xs) = xs"
  by (induction xs) auto

text \<open>The candidate list, with the pairs of event and label folded away.\<close>

lemma events_to_choose_from_char:
  "events_to_choose_from self events =
     (let preferred_events = filter (\<lambda>e. JStr (detect_group self e) =
                                      cfg_get (config self) ''preferred_group'' (JStr ''A'')) events;
          all_events = filter (\<lambda>e. detect_group self e = ''ALL'') events
      in if preferred_events \<noteq> [] then preferred_events
         else if config self ''fallback_group_behavior'' = Some (JStr ''use_all_if_missing'')
         then (if all_events = [] then events else all_events)
         else events)"
  unfolding events_to_choose_from_def Let_def pairs_filter pairs_all ..

lemma candidates_subset: "set (events_to_choose_from self events) \<subseteq> set events"
  by (auto simp: events_to_choose_from_char Let_def)

lemma candidates_nonempty: "events \<noteq> [] \<Longrightarrow> events_to_choose_from self events \<noteq> []"
  by (auto simp: events_to_choose_from_char Let_def)

lemma select_from_candidates:
  assumes "events \<noteq> []"
  shows "\<exists>sel. select_optimal_event self events course_code = Some sel \<and>
               sel \<in> set (events_to_choose_from self events)"
proof -
  obtain first rest where ev: "events = first # rest" using assms by (cases events) auto
  obtain c cs where cands: "events_to_choose_from self events = c # cs"
    using candidates_nonempty [OF assms] by (cases "events_to_choose_from self events") auto
  have "py_min start_of c cs \<in> set (c # cs)" "py_max start_of c cs \<in> set (c # cs)"
    by (rule py_min_mem, rule py_max_mem)
  then show ?thesis
    unfolding select_optimal_event_def ev [symmetric] cands
    by (simp add: ev Let_def)
qed

lemma select_None_iff: "(select_optimal_event self events course_code = None) = (events = [])"
proof (cases events)
  case Nil
  then show ?thesis by (simp add: select_optimal_event_def)
next
  case (Cons e es)
  then have "events \<noteq> []" by simp
  from select_from_candidates [OF this, of self course_code] show ?thesis using Cons by auto
qed

lemma fallback_candidates:
  assumes "\<forall>e \<in> set events. JStr (detect_group self e) \<noteq> cfg_get (config self) ''preferred_group'' (JStr ''A'')"
  shows "events_to_choose_from self events =
           (if config self ''fallback_group_behavior'' = Some (JStr ''use_all_if_missing'') \<and>
               filter (\<lambda>e. detect_group self e = ''ALL'') events \<noteq> []
            then filter (\<lambda>e. detect_group self e = ''ALL'') events else events)"
proof -
  have "filter (\<lambda>e. JStr (detect_group self e) = cfg_get (config self) ''preferred_group'' (JStr ''A'')) events = []"
    using assms by (simp add: filter_empty_conv)
  then show ?thesis by (simp add: events_to_choose_from_char Let_def)
qed

lemma detect_group_config_update [simp]: "detect_group (self\<lparr>config := cfg\<rparr>) e = detect_group self e"
  by (simp add: detect_group_def)

section \<open>The sample data evaluated\<close>

lemma text_mk_event:
  "text_to_analyze (mk_event n d b w e) = n @ '' '' @ (case d of None \<Rightarrow> [] | Some x \<Rightarrow> x)"
  by (simp add: text_to_analyze_def mk_event_def)

lemma start_mk_event [simp]: "instant (begin_time (mk_event n d b w e)) = b"
  by (simp add: mk_event_def)

lemma label_groep_a: "first_rule load_group_rules (text_to_analyze (mk_event ''5417 - groep A'' None b w e)) = ''A''"
  unfolding first_rule_default text_mk_event by code_simp

lemma label_groep_b: "first_rule load_group_rules (text_to_analyze (mk_event ''5417 - groep B'' None b w e)) = ''B''"
  unfolding first_rule_default text_mk_event by code_simp

lemma label_groep_c: "first_rule load_group_rules (text_to_analyze (mk_event ''5417 - groep C'' None b w e)) = ''C''"
  unfolding first_rule_default text_mk_event by code_simp

lemma label_all: "first_rule load_group_rules (text_to_analyze (mk_event ''5417 - all'' None b w e)) = ''ALL''"
  unfolding first_rule_default text_mk_event by code_simp

lemma sample_events:
  "ev_a = mk_event ''5417 - groep A'' None 810 2 900"
  "ev_a_twin = mk_event ''5417 - groep A'' None 810 2 930"
  "ev_a_mid = mk_event ''5417 - groep A'' None 850 2 940"
  "ev_a_late = mk_event ''5417 - groep A'' None 900 2 990"
  "ev_a_late_twin = mk_event ''5417 - groep A'' None 900 2 1020"
  "ev_b = mk_event ''5417 - groep B'' None 810 2 900"
  "ev_c = mk_event ''5417 - groep C'' None 900 2 990"
  "ev_all = mk_event ''5417 - all'' None 540 3 660"
  "ev_all_late = mk_event ''5417 - all'' None 960 3 1050"
  by (simp_all add: ev_a_def ev_a_twin_def ev_a_mid_def ev_a_late_def ev_a_late_twin_def
        ev_b_def ev_c_def ev_all_def ev_all_late_def)

lemma detect_with_config: "detect_group (with_config cfg) e = first_rule load_group_rules (text_to_analyze e)"
  by (simp add: detect_group_def with_config_def)

lemma detect_samples:
  "detect_group (with_config cfg) ev_a = ''A''"
  "detect_group (with_config cfg) ev_a_twin = ''A''"
  "detect_group (with_config cfg) ev_a_mid = ''A''"
  "detect_group (with_config cfg) ev_a_late = ''A''"
  "detect_group (with_config cfg) ev_a_late_twin = ''A''"
  "detect_group (with_config cfg) ev_b = ''B''"
  "detect_group (with_config cfg) ev_c = ''C''"
  "detect_group (with_config cfg) ev_all = ''ALL''"
  "detect_group (with_config cfg) ev_all_late = ''ALL''"
  by (simp_all add: detect_with_config sample_events label_groep_a label_groep_b label_groep_c label_all)

lemma default_optimizer_with: "default_optimizer = with_config default_config"
  by (simp add: default_optimizer_def with_config_def)

lemma config_with [simp]: "config (with_config cfg) = cfg"
  by (simp add: with_config_def)

lemma default_config_values:
  "default_config ''preferred_group'' = Some (JStr ''A'')"
  "default_config ''fallback_group_behavior'' = Some (JStr ''use_all_if_missing'')"
  "default_config ''optimization_mode'' = Some (JStr ''earliest_lesson'')"
  "default_config ''skip_weekends'' = Some (JBool True)"
  by (simp_all add: default_config_def)

lemma sample_config_values:
  "latest_config ''preferred_group'' = Some (JStr ''A'')"
  "latest_config ''optimization_mode'' = Some (JStr ''latest_lesson'')"
  "first_seen_config ''preferred_group'' = Some (JStr ''A'')"
  "first_seen_config ''optimization_mode'' = Some (JStr ''first_seen'')"
  "use_any_config ''preferred_group'' = Some (JStr ''A'')"
  "use_any_config ''fallback_group_behavior'' = Some (JStr ''use_any_if_missing'')"
  "use_any_config ''optimization_mode'' = Some (JStr ''earliest_lesson'')"
  "no_fallback_config ''preferred_group'' = Some (JStr ''A'')"
  "no_fallback_config ''fallback_group_behavior'' = None"
  "no_fallback_config ''optimization_mode'' = Some (JStr ''earliest_lesson'')"
  by (simp_all add: latest_config_def first_seen_config_def use_any_config_def no_fallback_config_def
        default_config_def)

lemma tied_candidates:
  assumes "cfg ''preferred_group'' = Some (JStr ''A'')"
  shows "events_to_choose_from (with_config cfg) tied = tied"
  using assms
  by (simp add: events_to_choose_from_char Let_def tied_def detect_with_config sample_events
        label_groep_a cfg_get_def)

section \<open>Claims about the selector\<close>

text \<open>
  Claim C1 (preference satisfaction). Whenever a cluster has a member whose label is the
  preferred group of the configuration (\<open>"A"\<close> when the key is absent), the
  selector returns a member of the cluster whose label is the preferred group. Nothing is
  assumed about the fallback behaviour or the optimization mode.
\<close>

theorem preferred_member_selected:
  assumes "e \<in> set events"
    and "JStr (detect_group self e) = cfg_get (config self) ''preferred_group'' (JStr ''A'')"
  shows "\<exists>sel. select_optimal_event self events course_code = Some sel \<and> sel \<in> set events \<and>
           JStr (detect_group self sel) = cfg_get (config self) ''preferred_group'' (JStr ''A'')"
proof -
  let ?P = "\<lambda>e. JStr (detect_group self e) = cfg_get (config self) ''preferred_group'' (JStr ''A'')"
  have ne: "events \<noteq> []" using assms(1) by auto
  have "filter ?P events \<noteq> []" using assms by (auto simp: filter_empty_conv)
  then have cands: "events_to_choose_from self events = filter ?P events"
    by (simp add: events_to_choose_from_char Let_def)
  from select_from_candidates [OF ne, of self course_code] obtain sel where
    "select_optimal_event self events course_code = Some sel" "sel \<in> set (filter ?P events)"
    unfolding cands by blast
  then show ?thesis by auto
qed

theorem preferred_member_selected_witness:
  "ev_a \<in> set [ev_b, ev_all, ev_a] \<and>
   JStr (detect_group default_optimizer ev_a) = cfg_get (config default_optimizer) ''preferred_group'' (JStr ''A'') \<and>
   select_optimal_event default_optimizer [ev_b, ev_all, ev_a] ''5417'' = Some ev_a"
proof -
  have mem: "ev_a \<in> set [ev_b, ev_all, ev_a]" by simp
  have lab: "JStr (detect_group default_optimizer ev_a) =
             cfg_get (config default_optimizer) ''preferred_group'' (JStr ''A'')"
    by (simp add: default_optimizer_with detect_samples cfg_get_def default_config_values)
  from preferred_member_selected [OF mem lab, of "''5417''"] obtain sel where
    sel: "select_optimal_event default_optimizer [ev_b, ev_all, ev_a] ''5417'' = Some sel"
    and "sel \<in> set [ev_b, ev_all, ev_a]"
    and "JStr (detect_group default_optimizer sel) = cfg_get (config default_optimizer) ''preferred_group'' (JStr ''A'')"
    by blast
  then have "sel = ev_a"
    by (auto simp: default_optimizer_with detect_samples cfg_get_def default_config_values)
  then show ?thesis using mem lab sel by simp
qed

text \<open>
  Claim C2 (fallback). For a non-empty cluster with no member of the preferred group: when
  \<open>fallback_group_behavior\<close> is \<open>"use_all_if_missing"\<close>, the candidates are
  the members labelled ALL if there is one, and the selected event is then labelled ALL; if
  there is none the candidates are all members. Under any other value of the key the
  candidates are all members at once.
\<close>

theorem fallback_steps:
  assumes ne: "events \<noteq> []"
    and nopref: "\<forall>e \<in> set events. JStr (detect_group self e) \<noteq> cfg_get (config self) ''preferred_group'' (JStr ''A'')"
  shows "(config self ''fallback_group_behavior'' = Some (JStr ''use_all_if_missing'') \<longrightarrow>
            ((\<exists>e \<in> set events. detect_group self e = ''ALL'') \<longrightarrow>
               events_to_choose_from self events = filter (\<lambda>e. detect_group self e = ''ALL'') events \<and>
               (\<exists>sel. select_optimal_event self events course_code = Some sel \<and> sel \<in> set events \<and>
                      detect_group self sel = ''ALL'')) \<and>
            ((\<forall>e \<in> set events. detect_group self e \<noteq> ''ALL'') \<longrightarrow>
               events_to_choose_from self events = events)) \<and>
         (config self ''fallback_group_behavior'' \<noteq> Some (JStr ''use_all_if_missing'') \<longrightarrow>
            events_to_choose_from self events = events)"
proof -
  let ?all = "filter (\<lambda>e. detect_group self e = ''ALL'') events"
  note cands = fallback_candidates [OF nopref]
  have any: "events_to_choose_from self events = events"
    if "config self ''fallback_group_behavior'' \<noteq> Some (JStr ''use_all_if_missing'')"
    using that by (simp add: cands)
  have none: "events_to_choose_from self events = events"
    if "\<forall>e \<in> set events. detect_group self e \<noteq> ''ALL''"
  proof -
    have "?all = []" using that by (simp add: filter_empty_conv)
    then show ?thesis by (simp add: cands)
  qed
  have some: "events_to_choose_from self events = ?all \<and>
      (\<exists>sel. select_optimal_event self events course_code = Some sel \<and> sel \<in> set events \<and>
             detect_group self sel = ''ALL'')"
    if use: "config self ''fallback_group_behavior'' = Some (JStr ''use_all_if_missing'')"
      and ex: "\<exists>e \<in> set events. detect_group self e = ''ALL''"
  proof -
    have "?all \<noteq> []" using ex by (auto simp: filter_empty_conv)
    then have c: "events_to_choose_from self events = ?all" using use by (simp add: cands)
    from select_from_candidates [OF ne, of self course_code] obtain sel where
      "select_optimal_event self events course_code = Some sel" "sel \<in> set ?all"
      unfolding c by blast
    then show ?thesis using c by auto
  qed
  show ?thesis using any none some by blast
qed

theorem fallback_steps_witness:
  "events_to_choose_from default_optimizer [ev_b, ev_all] = [ev_all] \<and>
   select_optimal_event default_optimizer [ev_b, ev_all] ''5417'' = Some ev_all \<and>
   events_to_choose_from default_optimizer [ev_b, ev_c] = [ev_b, ev_c] \<and>
   events_to_choose_from (with_config use_any_config) [ev_b, ev_all] = [ev_b, ev_all]"
proof -
  have ne: "[ev_b, ev_all] \<noteq> []" "[ev_b, ev_c] \<noteq> []" by simp_all
  have np1: "\<forall>e \<in> set [ev_b, ev_all]. JStr (detect_group default_optimizer e) \<noteq>
               cfg_get (config default_optimizer) ''preferred_group'' (JStr ''A'')"
    by (simp add: default_optimizer_with detect_samples cfg_get_def default_config_values)
  have np2: "\<forall>e \<in> set [ev_b, ev_c]. JStr (detect_group default_optimizer e) \<noteq>
               cfg_get (config default_optimizer) ''preferred_group'' (JStr ''A'')"
    by (simp add: default_optimizer_with detect_samples cfg_get_def default_config_values)
  have np3: "\<forall>e \<in> set [ev_b, ev_all]. JStr (detect_group (with_config use_any_config) e) \<noteq>
               cfg_get (config (with_config use_any_config)) ''preferred_group'' (JStr ''A'')"
    by (simp add: detect_samples cfg_get_def sample_config_values)
  have use: "config default_optimizer ''fallback_group_behavior'' = Some (JStr ''use_all_if_missing'')"
    by (simp add: default_optimizer_with default_config_values)
  have any: "config (with_config use_any_config) ''fallback_group_behavior'' \<noteq> Some (JStr ''use_all_if_missing'')"
    by (simp add: sample_config_values)
  have ex: "\<exists>e \<in> set [ev_b, ev_all]. detect_group default_optimizer e = ''ALL''"
    by (simp add: default_optimizer_with detect_samples)
  have nex: "\<forall>e \<in> set [ev_b, ev_c]. detect_group default_optimizer e \<noteq> ''ALL''"
    by (simp add: default_optimizer_with detect_samples)
  from fallback_steps [OF ne(1) np1, of "''5417''"] use ex
  have a: "events_to_choose_from default_optimizer [ev_b, ev_all] =
             filter (\<lambda>e. detect_group default_optimizer e = ''ALL'') [ev_b, ev_all]"
    and "\<exists>sel. select_optimal_event default_optimizer [ev_b, ev_all] ''5417'' = Some sel \<and>
            sel \<in> set [ev_b, ev_all] \<and> detect_group default_optimizer sel = ''ALL''"
    by blast+
  then have b: "select_optimal_event default_optimizer [ev_b, ev_all] ''5417'' = Some ev_all"
    by (auto simp: default_optimizer_with detect_samples)
  have a': "events_to_choose_from default_optimizer [ev_b, ev_all] = [ev_all]"
    using a by (simp add: default_optimizer_with detect_samples)
  from fallback_steps [OF ne(2) np2, of "''5417''"] use nex
  have c: "events_to_choose_from default_optimizer [ev_b, ev_c] = [ev_b, ev_c]" by blast
  from fallback_steps [OF ne(1) np3, of "''5417''"] any
  have d: "events_to_choose_from (with_config use_any_config) [ev_b, ev_all] = [ev_b, ev_all]" by blast
  show ?thesis using a' b c d by simp
qed

text \<open>
  Claim C3 (tie-break). Let the candidate list be \<open>c # cs\<close>. In mode
  \<open>"earliest_lesson"\<close> the selected candidate has the least start, and every
  candidate before it in the list starts strictly later; in mode \<open>"latest_lesson"\<close>
  it has the greatest start, and every candidate before it starts strictly earlier; in any
  other mode it is the first candidate \<open>c\<close>. So among candidates that share the
  extremal start the first one in candidate order is returned.
\<close>

theorem tie_break:
  assumes cands: "events_to_choose_from self events = c # cs"
  shows "(cfg_get (config self) ''optimization_mode'' (JStr ''earliest_lesson'') = JStr ''earliest_lesson'' \<longrightarrow>
            (\<exists>pre r post. select_optimal_event self events course_code = Some r \<and> c # cs = pre @ r # post \<and>
               (\<forall>d \<in> set pre. start_of r < start_of d) \<and> (\<forall>d \<in> set post. start_of r \<le> start_of d))) \<and>
         (cfg_get (config self) ''optimization_mode'' (JStr ''earliest_lesson'') = JStr ''latest_lesson'' \<longrightarrow>
            (\<exists>pre r post. select_optimal_event self events course_code = Some r \<and> c # cs = pre @ r # post \<and>
               (\<forall>d \<in> set pre. start_of d < start_of r) \<and> (\<forall>d \<in> set post. start_of d \<le> start_of r))) \<and>
         (cfg_get (config self) ''optimization_mode'' (JStr ''earliest_lesson'') \<noteq> JStr ''earliest_lesson'' \<and>
          cfg_get (config self) ''optimization_mode'' (JStr ''earliest_lesson'') \<noteq> JStr ''latest_lesson'' \<longrightarrow>
            select_optimal_event self events course_code = Some c)"
proof -
  let ?mode = "cfg_get (config self) ''optimization_mode'' (JStr ''earliest_lesson'')"
  have ne: "events \<noteq> []"
    using cands candidates_subset [of self events] by auto
  then obtain first rest where ev: "events = first # rest" by (cases events) auto
  have sel: "select_optimal_event self events course_code =
               (if ?mode = JStr ''earliest_lesson'' then Some (py_min start_of c cs)
                else if ?mode = JStr ''latest_lesson'' then Some (py_max start_of c cs)
                else Some c)"
    unfolding select_optimal_event_def cands by (simp add: ev Let_def)
  have early: "\<exists>pre r post. select_optimal_event self events course_code = Some r \<and> c # cs = pre @ r # post \<and>
               (\<forall>d \<in> set pre. start_of r < start_of d) \<and> (\<forall>d \<in> set post. start_of r \<le> start_of d)"
    if "?mode = JStr ''earliest_lesson''"
    using py_min_split [of c cs start_of] sel that by auto
  have late: "\<exists>pre r post. select_optimal_event self events course_code = Some r \<and> c # cs = pre @ r # post \<and>
               (\<forall>d \<in> set pre. start_of d < start_of r) \<and> (\<forall>d \<in> set post. start_of d \<le> start_of r)"
    if "?mode = JStr ''latest_lesson''"
    using py_max_split [of c cs start_of] sel that by auto
  have other: "select_optimal_event self events course_code = Some c"
    if "?mode \<noteq> JStr ''earliest_lesson''" "?mode \<noteq> JStr ''latest_lesson''"
    using sel that by simp
  show ?thesis using early late other by blast
qed

theorem tie_break_witness:
  "(\<exists>pre post. select_optimal_event default_optimizer tied ''5417'' = Some ev_a \<and>
       tied = pre @ ev_a # post \<and>
       (\<forall>d \<in> set pre. start_of ev_a < start_of d) \<and> (\<forall>d \<in> set post. start_of ev_a \<le> start_of d)) \<and>
   (\<exists>pre post. select_optimal_event (with_config latest_config) tied ''5417'' = Some ev_a_late \<and>
       tied = pre @ ev_a_late # post \<and>
       (\<forall>d \<in> set pre. start_of d < start_of ev_a_late) \<and> (\<forall>d \<in> set post. start_of d \<le> start_of ev_a_late)) \<and>
   select_optimal_event (with_config first_seen_config) tied ''5417'' = Some ev_a_mid"
proof -
  let ?rest = "[ev_a, ev_a_twin, ev_a_late, ev_a_late_twin]"
  have c1: "events_to_choose_from default_optimizer tied = ev_a_mid # ?rest"
    unfolding default_optimizer_with
    using tied_candidates [of default_config, OF default_config_values(1)] by (simp add: tied_def)
  have c2: "events_to_choose_from (with_config latest_config) tied = ev_a_mid # ?rest"
    using tied_candidates [of latest_config, OF sample_config_values(1)] by (simp add: tied_def)
  have c3: "events_to_choose_from (with_config first_seen_config) tied = ev_a_mid # ?rest"
    using tied_candidates [of first_seen_config, OF sample_config_values(3)] by (simp add: tied_def)
  have m1: "cfg_get (config default_optimizer) ''optimization_mode'' (JStr ''earliest_lesson'') = JStr ''earliest_lesson''"
    by (simp add: default_optimizer_with cfg_get_def default_config_values)
  have m2: "cfg_get (config (with_config latest_config)) ''optimization_mode'' (JStr ''earliest_lesson'') = JStr ''latest_lesson''"
    by (simp add: cfg_get_def sample_config_values)
  have m3: "cfg_get (config (with_config first_seen_config)) ''optimization_mode'' (JStr ''earliest_lesson'') = JStr ''first_seen''"
    by (simp add: cfg_get_def sample_config_values)
  have s1: "select_optimal_event default_optimizer tied ''5417'' = Some ev_a"
    unfolding select_optimal_event_def c1 m1
    by (simp add: tied_def py_min_def sample_events)
  have s2: "select_optimal_event (with_config latest_config) tied ''5417'' = Some ev_a_late"
    unfolding select_optimal_event_def c2 m2
    by (simp add: tied_def py_max_def sample_events)
  from tie_break [OF c1, of "''5417''"] m1 s1
  have e: "\<exists>pre post. select_optimal_event default_optimizer tied ''5417'' = Some ev_a \<and>
       tied = pre @ ev_a # post \<and>
       (\<forall>d \<in> set pre. start_of ev_a < start_of d) \<and> (\<forall>d \<in> set post. start_of ev_a \<le> start_of d)"
    unfolding tied_def by auto
  from tie_break [OF c2, of "''5417''"] m2 s2
  have l: "\<exists>pre post. select_optimal_event (with_config latest_config) tied ''5417'' = Some ev_a_late \<and>
       tied = pre @ ev_a_late # post \<and>
       (\<forall>d \<in> set pre. start_of d < start_of ev_a_late) \<and> (\<forall>d \<in> set post. start_of d \<le> start_of ev_a_late)"
    unfolding tied_def by auto
  from tie_break [OF c3, of "''5417''"] m3
  have f: "select_optimal_event (with_config first_seen_config) tied ''5417'' = Some ev_a_mid"
    by simp
  show ?thesis using e l f by blast
qed

text \<open>
  Claim C5 (totality, as the source has it). A call of the selector never raises. On a
  non-empty cluster it returns an event of the cluster, under every configuration. On the
  empty cluster it returns the value \<open>None\<close>, and \<open>None\<close> is returned only
  there: the empty cluster is reported by an ordinary return value, not by an error.
\<close>

theorem selector_total:
  "(\<exists>r. select_optimal_event_outcome self events course_code = Returned r) \<and>
   (select_optimal_event_outcome self events course_code = Returned None) = (events = []) \<and>
   (events \<noteq> [] \<longrightarrow>
      (\<exists>sel. sel \<in> set events \<and> select_optimal_event_outcome self events course_code = Returned (Some sel)))"
proof -
  have "\<exists>sel. sel \<in> set events \<and> select_optimal_event self events course_code = Some sel"
    if ne: "events \<noteq> []"
    using select_from_candidates [OF ne, of self course_code] candidates_subset [of self events]
    by blast
  then show ?thesis
    using select_None_iff [of self events course_code]
    by (simp add: select_optimal_event_outcome_def)
qed

theorem selector_total_witness:
  "[ev_c, ev_b, ev_all_late] \<noteq> [] \<and>
   select_optimal_event_outcome (with_config use_any_config) [ev_c, ev_b, ev_all_late] ''5417'' = Returned (Some ev_b) \<and>
   select_optimal_event_outcome (with_config latest_config) [ev_c, ev_b, ev_all_late] ''5417'' = Returned (Some ev_all_late) \<and>
   select_optimal_event_outcome (with_config use_any_config) [] ''5417'' = Returned None"
proof -
  let ?es = "[ev_c, ev_b, ev_all_late]"
  have ne: "?es \<noteq> []" by simp
  have c1: "events_to_choose_from (with_config use_any_config) ?es = ?es"
    by (simp add: events_to_choose_from_char Let_def detect_samples cfg_get_def sample_config_values)
  have s1: "select_optimal_event (with_config use_any_config) ?es ''5417'' = Some ev_b"
    unfolding select_optimal_event_def c1
    by (simp add: cfg_get_def sample_config_values py_min_def sample_events)
  have c2: "events_to_choose_from (with_config latest_config) ?es = [ev_all_late]"
    by (simp add: events_to_choose_from_char Let_def detect_samples cfg_get_def sample_config_values
          latest_config_def default_config_def)
  have s2: "select_optimal_event (with_config latest_config) ?es ''5417'' = Some ev_all_late"
    unfolding select_optimal_event_def c2
    by (simp add: cfg_get_def sample_config_values py_max_def)
  from selector_total [of "with_config use_any_config" ?es "''5417''"] ne s1
  have a: "select_optimal_event_outcome (with_config use_any_config) ?es ''5417'' = Returned (Some ev_b)"
    by (auto simp: select_optimal_event_outcome_def)
  from selector_total [of "with_config latest_config" ?es "''5417''"] ne s2
  have b: "select_optimal_event_outcome (with_config latest_config) ?es ''5417'' = Returned (Some ev_all_late)"
    by (auto simp: select_optimal_event_outcome_def)
  from selector_total [of "with_config use_any_config" "[]" "''5417''"]
  have c: "select_optimal_event_outcome (with_config use_any_config) [] ''5417'' = Returned None"
    by simp
  show ?thesis using ne a b c by simp
qed

text \<open>
  The claim as the specification states it fails at the empty cluster: the call returns
  \<open>None\<close>, it does not raise an \<open>EmptyClusterError\<close>.
\<close>

theorem empty_cluster_returns_none:
  "select_optimal_event_outcome default_optimizer [] ''5417'' = Returned None \<and>
   select_optimal_event_outcome default_optimizer [] ''5417'' \<noteq> Raised ''EmptyClusterError''"
  by (simp add: select_optimal_event_outcome_def select_optimal_event_def)

text \<open>
  Claim C10 (missing key). When the configuration has no key
  \<open>fallback_group_behavior\<close>, the candidate list and the selected event are those
  obtained with the value \<open>"use_any_if_missing"\<close>; in particular a cluster with no
  member of the preferred group has all its members as candidates, whether or not one of
  them is labelled ALL.
\<close>

theorem missing_fallback_key:
  assumes missing: "config self ''fallback_group_behavior'' = None"
  shows "events_to_choose_from self events =
           events_to_choose_from (self\<lparr>config := (config self)(''fallback_group_behavior'' \<mapsto> JStr ''use_any_if_missing'')\<rparr>) events \<and>
         select_optimal_event self events course_code =
           select_optimal_event (self\<lparr>config := (config self)(''fallback_group_behavior'' \<mapsto> JStr ''use_any_if_missing'')\<rparr>) events course_code \<and>
         ((\<forall>e \<in> set events. JStr (detect_group self e) \<noteq> cfg_get (config self) ''preferred_group'' (JStr ''A''))
            \<longrightarrow> events_to_choose_from self events = events)"
proof -
  let ?any = "self\<lparr>config := (config self)(''fallback_group_behavior'' \<mapsto> JStr ''use_any_if_missing'')\<rparr>"
  have cands: "events_to_choose_from self events = events_to_choose_from ?any events"
    using missing by (simp add: events_to_choose_from_char Let_def cfg_get_def)
  have mode: "cfg_get (config ?any) ''optimization_mode'' (JStr ''earliest_lesson'') =
              cfg_get (config self) ''optimization_mode'' (JStr ''earliest_lesson'')"
    by (simp add: cfg_get_def)
  have sel: "select_optimal_event self events course_code = select_optimal_event ?any events course_code"
    unfolding select_optimal_event_def cands mode ..
  have all: "events_to_choose_from self events = events"
    if "\<forall>e \<in> set events. JStr (detect_group self e) \<noteq> cfg_get (config self) ''preferred_group'' (JStr ''A'')"
    using fallback_candidates [OF that] missing by simp
  show ?thesis using cands sel all by blast
qed

theorem missing_fallback_key_witness:
  "config (with_config no_fallback_config) ''fallback_group_behavior'' = None \<and>
   events_to_choose_from (with_config no_fallback_config) [ev_b, ev_all_late] = [ev_b, ev_all_late] \<and>
   select_optimal_event (with_config no_fallback_config) [ev_b, ev_all_late] ''5417'' = Some ev_b \<and>
   select_optimal_event default_optimizer [ev_b, ev_all_late] ''5417'' = Some ev_all_late"
proof -
  have missing: "config (with_config no_fallback_config) ''fallback_group_behavior'' = None"
    by (simp add: sample_config_values)
  have np: "\<forall>e \<in> set [ev_b, ev_all_late]. JStr (detect_group (with_config no_fallback_config) e) \<noteq>
               cfg_get (config (with_config no_fallback_config)) ''preferred_group'' (JStr ''A'')"
    by (simp add: detect_samples cfg_get_def sample_config_values)
  from missing_fallback_key [OF missing, of "[ev_b, ev_all_late]" "''5417''"] np
  have c: "events_to_choose_from (with_config no_fallback_config) [ev_b, ev_all_late] = [ev_b, ev_all_late]"
    by blast
  have s: "select_optimal_event (with_config no_fallback_config) [ev_b, ev_all_late] ''5417'' = Some ev_b"
    unfolding select_optimal_event_def c
    by (simp add: cfg_get_def sample_config_values py_min_def sample_events)
  have c': "events_to_choose_from default_optimizer [ev_b, ev_all_late] = [ev_all_late]"
    by (simp add: events_to_choose_from_char Let_def default_optimizer_with detect_samples cfg_get_def
          default_config_values)
  have s': "select_optimal_event default_optimizer [ev_b, ev_all_late] ''5417'' = Some ev_all_late"
    unfolding select_optimal_event_def c'
    by (simp add: default_optimizer_with cfg_get_def default_config_values py_min_def)
  show ?thesis using missing c s s' by simp
qed

section \<open>The clusters of the course grouper\<close>

lemma set_first_seen [simp]: "set (spec_first_seen xs) = set xs"
  by (induction xs) auto

lemma distinct_first_seen [simp]: "distinct (spec_first_seen xs)"
  by (induction xs) (auto simp: distinct_removeAll)

lemma first_seen_snoc:
  "spec_first_seen (xs @ [x]) = (if x \<in> set xs then spec_first_seen xs else spec_first_seen xs @ [x])"
  by (induction xs) auto


lemma add_to_course_groups:
  "add_to_course (spec_groups f es) (f e) e = spec_groups f (es @ [e])"
proof (cases "f e \<in> f ` set es")
  case True
  then show ?thesis
    by (auto simp: add_to_course_def spec_groups_def first_seen_snoc image_iff)
next
  case False
  then have "\<forall>k \<in> set es. f k \<noteq> f e" by (metis imageI)
  with False show ?thesis
    by (auto simp: add_to_course_def spec_groups_def first_seen_snoc image_iff filter_empty_conv)
qed

lemma foldl_groups:
  "foldl (\<lambda>groups e. add_to_course groups (f e) e) [] es = spec_groups f es"
proof (induction es rule: rev_induct)
  case Nil
  show ?case by (simp add: spec_groups_def)
next
  case (snoc e es)
  then show ?case by (simp add: add_to_course_groups)
qed

lemma group_events_by_course_char:
  "group_events_by_course events = spec_groups course_code_of events"
  by (simp add: group_events_by_course_def foldl_groups)

section \<open>The pipeline as a list of picks\<close>

lemma pick_in_group:
  assumes "k \<in> f ` set kept"
  shows "\<exists>sel. select_optimal_event self (filter (\<lambda>e. f e = k) kept) k = Some sel \<and>
               sel \<in> set kept \<and> f sel = k"
proof -
  have ne: "filter (\<lambda>e. f e = k) kept \<noteq> []"
    using assms by (auto simp: filter_empty_conv)
  from select_from_candidates [OF ne, of self k] candidates_subset [of self "filter (\<lambda>e. f e = k) kept"]
  show ?thesis by auto
qed

lemma concat_picks:
  "\<forall>k \<in> set ks. h k \<noteq> None \<Longrightarrow>
   map Some (concat (map (\<lambda>k. case h k of None \<Rightarrow> [] | Some x \<Rightarrow> [x]) ks)) = map h ks"
  by (induction ks) auto

lemma optimize_schedule_groups:
  "optimize_schedule self events =
     concat (map (\<lambda>k. case select_optimal_event self
                             (filter (\<lambda>e. course_code_of e = k) (filter (\<lambda>e. \<not> should_skip_weekend self e) events)) k of
                         None \<Rightarrow> [] | Some x \<Rightarrow> [x])
                 (spec_first_seen (map course_code_of (filter (\<lambda>e. \<not> should_skip_weekend self e) events))))"
  by (simp add: optimize_schedule_def Let_def group_events_by_course_char spec_groups_def comp_def)

lemma optimize_schedule_picks:
  "map Some (optimize_schedule self events) =
     map (\<lambda>k. select_optimal_event self
                 (filter (\<lambda>e. course_code_of e = k) (filter (\<lambda>e. \<not> should_skip_weekend self e) events)) k)
         (spec_first_seen (map course_code_of (filter (\<lambda>e. \<not> should_skip_weekend self e) events)))"
proof -
  let ?kept = "filter (\<lambda>e. \<not> should_skip_weekend self e) events"
  let ?h = "\<lambda>k. select_optimal_event self (filter (\<lambda>e. course_code_of e = k) ?kept) k"
  have "\<forall>k \<in> set (spec_first_seen (map course_code_of ?kept)). ?h k \<noteq> None"
    using pick_in_group [of _ course_code_of ?kept self] by fastforce
  from concat_picks [of "spec_first_seen (map course_code_of ?kept)" ?h, OF this]
  show ?thesis unfolding optimize_schedule_groups .
qed



section \<open>Events that differ in their ends\<close>

lemma filter_map_same:
  "(\<And>e. P (g e) = P e) \<Longrightarrow> filter P (map g es) = map g (filter P es)"
  by (induction es) auto

lemma py_min_map:
  assumes "\<And>e. key (g e) = key e"
  shows "py_min key (g c) (map g cs) = g (py_min key c cs)"
proof (induction cs rule: rev_induct)
  case Nil
  show ?case by (simp add: py_min_def)
next
  case (snoc y cs)
  have "py_min key (g c) (map g (cs @ [y])) = py_min key (g c) (map g cs @ [g y])" by simp
  also have "\<dots> = (if key (g y) < key (py_min key (g c) (map g cs)) then g y else py_min key (g c) (map g cs))"
    by (rule py_min_snoc)
  also have "\<dots> = g (py_min key c (cs @ [y]))"
    by (simp add: snoc assms py_min_snoc)
  finally show ?case .
qed

lemma py_max_map:
  assumes "\<And>e. key (g e) = key e"
  shows "py_max key (g c) (map g cs) = g (py_max key c cs)"
proof (induction cs rule: rev_induct)
  case Nil
  show ?case by (simp add: py_max_def)
next
  case (snoc y cs)
  have "py_max key (g c) (map g (cs @ [y])) = py_max key (g c) (map g cs @ [g y])" by simp
  also have "\<dots> = (if key (g y) > key (py_max key (g c) (map g cs)) then g y else py_max key (g c) (map g cs))"
    by (rule py_max_snoc)
  also have "\<dots> = g (py_max key c (cs @ [y]))"
    by (simp add: snoc assms py_max_snoc)
  finally show ?case .
qed

lemma detect_group_end [simp]: "detect_group self (e\<lparr>end_time := t\<rparr>) = detect_group self e"
  by (simp add: detect_group_def text_to_analyze_def)

lemma course_code_of_end [simp]: "course_code_of (e\<lparr>end_time := t\<rparr>) = course_code_of e"
  by (simp add: course_code_of_def)

lemma should_skip_weekend_end [simp]: "should_skip_weekend self (e\<lparr>end_time := t\<rparr>) = should_skip_weekend self e"
  by (simp add: should_skip_weekend_def)

lemma candidates_end:
  "events_to_choose_from self (map (\<lambda>e. e\<lparr>end_time := f e\<rparr>) es) =
     map (\<lambda>e. e\<lparr>end_time := f e\<rparr>) (events_to_choose_from self es)"
  by (simp add: events_to_choose_from_char Let_def filter_map_same)

lemma select_end:
  "select_optimal_event self (map (\<lambda>e. e\<lparr>end_time := f e\<rparr>) es) k =
     map_option (\<lambda>e. e\<lparr>end_time := f e\<rparr>) (select_optimal_event self es k)"
proof (cases es)
  case Nil
  then show ?thesis by (simp add: select_optimal_event_def)
next
  case es: (Cons first rest)
  let ?g = "\<lambda>e. e\<lparr>end_time := f e\<rparr>"
  note cg = candidates_end [of self f es]
  show ?thesis
  proof (cases "events_to_choose_from self es")
    case Nil
    show ?thesis
      unfolding select_optimal_event_def cg Nil by (simp add: es)
  next
    case (Cons c cs)
    have pmin: "py_min start_of (?g c) (map ?g cs) = ?g (py_min start_of c cs)"
      by (rule py_min_map) simp
    have pmax: "py_max start_of (?g c) (map ?g cs) = ?g (py_max start_of c cs)"
      by (rule py_max_map) simp
    show ?thesis
      unfolding select_optimal_event_def cg Cons
      by (simp add: es Let_def pmin pmax)
  qed
qed

lemma optimize_schedule_end:
  "optimize_schedule self (map (\<lambda>e. e\<lparr>end_time := f e\<rparr>) events) =
     map (\<lambda>e. e\<lparr>end_time := f e\<rparr>) (optimize_schedule self events)"
proof -
  let ?g = "\<lambda>e. e\<lparr>end_time := f e\<rparr>"
  have "map Some (optimize_schedule self (map ?g events)) = map Some (map ?g (optimize_schedule self events))"
  proof -
    have "map Some (map ?g (optimize_schedule self events)) =
            map (map_option ?g) (map Some (optimize_schedule self events))" by simp
    then show ?thesis
      unfolding optimize_schedule_picks
      by (simp add: filter_map_same comp_def select_end)
  qed
  then show ?thesis unfolding inj_map_eq_map [OF inj_Some] .
qed

section \<open>More sample data evaluated\<close>

lemma name_mk_event [simp]: "name (mk_event n d b w e) = n"
  by (simp add: mk_event_def)

lemma weekday_mk_event [simp]: "weekday (begin_time (mk_event n d b w e)) = w"
  by (simp add: mk_event_def)

lemma key_007: "spec_course_key ''007 - Ethiek'' = ''007''" by code_simp

lemma key_7: "spec_course_key ''7 - Ethiek'' = ''7''" by code_simp

lemma key_seminar: "spec_course_key ''Seminar'' = ''UNKNOWN''" by code_simp

lemma key_007_lab: "spec_course_key ''007-Practicum'' = ''007''" by code_simp

lemma key_lunch: "spec_course_key ''12 uur lunch'' = ''UNKNOWN''" by code_simp

lemma sample_keys:
  "spec_course_key (name k007) = ''007''"
  "spec_course_key (name k7) = ''7''"
  "spec_course_key (name seminar) = ''UNKNOWN''"
  "spec_course_key (name k007_lab) = ''007''"
  "spec_course_key (name lunch) = ''UNKNOWN''"
  by (simp_all add: k007_def k7_def seminar_def k007_lab_def lunch_def
        key_007 key_7 key_seminar key_007_lab key_lunch)

lemma key_5417_a: "spec_course_key ''5417 - groep A'' = ''5417''" by code_simp

lemma key_5417_b: "spec_course_key ''5417 - groep B'' = ''5417''" by code_simp

lemma key_1002: "spec_course_key ''1002 - all'' = ''1002''" by code_simp

lemma week_keys:
  "course_code_of ev_sat = ''5417''"
  "course_code_of ev_b = ''5417''"
  "course_code_of seminar = ''UNKNOWN''"
  "course_code_of ev_a_late = ''5417''"
  "course_code_of ev_other = ''1002''"
  "course_code_of ev_a = ''5417''"
  by (simp_all add: course_code_of_char ev_sat_def ev_other_def seminar_def sample_events
        key_5417_a key_5417_b key_1002 key_seminar)

lemma week_skipped:
  "should_skip_weekend default_optimizer e = (5 \<le> weekday (begin_time e))"
  "should_skip_weekend (with_config keep_weekends_config) e = False"
  by (simp_all add: should_skip_weekend_def default_optimizer_with cfg_get_def default_config_values
        keep_weekends_config_def)

lemma week_days:
  "weekday (begin_time ev_sat) = 5"
  "weekday (begin_time ev_b) = 2"
  "weekday (begin_time seminar) = 1"
  "weekday (begin_time ev_a_late) = 2"
  "weekday (begin_time ev_other) = 0"
  "weekday (begin_time ev_a) = 2"
  by (simp_all add: ev_sat_def ev_other_def seminar_def sample_events)


lemma pair_reduced: "optimize_schedule default_optimizer [ev_b, ev_a_late] = [ev_a_late]"
proof -
  have c: "events_to_choose_from default_optimizer [ev_b, ev_a_late] = [ev_a_late]"
    by (simp add: events_to_choose_from_char Let_def default_optimizer_with detect_samples cfg_get_def
          default_config_values)
  have s: "select_optimal_event default_optimizer [ev_b, ev_a_late] ''5417'' = Some ev_a_late"
    unfolding select_optimal_event_def c
    by (simp add: default_optimizer_with cfg_get_def default_config_values py_min_def)
  have "map Some (optimize_schedule default_optimizer [ev_b, ev_a_late]) = map Some [ev_a_late]"
    unfolding optimize_schedule_picks
    by (simp add: week_skipped week_days week_keys s)
  then show ?thesis unfolding inj_map_eq_map [OF inj_Some] .
qed



section \<open>Claims about the course grouper and the pipeline\<close>

text \<open>
  Claim C9 (course grouper). The clusters of \<open>group_events_by_course\<close> are keyed by
  the course key of the title: its leading run of decimal digits, kept as text, when the
  run is followed by optional whitespace and a dash, and \<open>"UNKNOWN"\<close> for every other
  title. The keys stand in the order in which the feed first shows them, each cluster
  holds the events of its key in feed order, and every event is in the cluster of its key.
\<close>

theorem course_grouper_first_seen:
  "group_events_by_course events =
     map (\<lambda>k. (k, filter (\<lambda>e. spec_course_key (name e) = k) events))
         (spec_first_seen (map (\<lambda>e. spec_course_key (name e)) events)) \<and>
   (\<forall>e \<in> set events. \<exists>members. (spec_course_key (name e), members) \<in> set (group_events_by_course events) \<and>
        e \<in> set members)"
proof -
  have fn: "course_code_of = (\<lambda>e. spec_course_key (name e))"
    by (rule ext) (rule course_code_of_char)
  have eq: "group_events_by_course events =
     map (\<lambda>k. (k, filter (\<lambda>e. spec_course_key (name e) = k) events))
         (spec_first_seen (map (\<lambda>e. spec_course_key (name e)) events))"
    unfolding group_events_by_course_char spec_groups_def fn ..
  have "\<exists>members. (spec_course_key (name e), members) \<in> set (group_events_by_course events) \<and> e \<in> set members"
    if "e \<in> set events" for e
  proof -
    let ?k = "spec_course_key (name e)"
    have "(?k, filter (\<lambda>e. spec_course_key (name e) = ?k) events) \<in> set (group_events_by_course events)"
      unfolding eq using that by auto
    moreover have "e \<in> set (filter (\<lambda>e. spec_course_key (name e) = ?k) events)"
      using that by simp
    ultimately show ?thesis by blast
  qed
  with eq show ?thesis by blast
qed

theorem course_grouper_first_seen_witness:
  "group_events_by_course [k007, seminar, k7, k007_lab, lunch] =
     [(''007'', [k007, k007_lab]), (''UNKNOWN'', [seminar, lunch]), (''7'', [k7])]"
proof -
  from course_grouper_first_seen [of "[k007, seminar, k7, k007_lab, lunch]"]
  have "group_events_by_course [k007, seminar, k7, k007_lab, lunch] =
     map (\<lambda>k. (k, filter (\<lambda>e. spec_course_key (name e) = k) [k007, seminar, k7, k007_lab, lunch]))
         (spec_first_seen (map (\<lambda>e. spec_course_key (name e)) [k007, seminar, k7, k007_lab, lunch]))"
    by blast
  then show ?thesis by (simp add: sample_keys)
qed



text \<open>
  Claim C6 (as the source has it). \<open>optimize_schedule\<close> checks no event: whatever the
  ends of the events are set to, before or after their starts, the call returns, and it
  returns the events it selects for the unchanged feed, with the ends set the same way.
\<close>

theorem end_never_examined:
  "optimize_schedule_outcome self (map (\<lambda>e. e\<lparr>end_time := f e\<rparr>) events) =
     Returned (map (\<lambda>e. e\<lparr>end_time := f e\<rparr>) (optimize_schedule self events))"
  by (simp add: optimize_schedule_outcome_def optimize_schedule_end)

theorem end_never_examined_witness:
  "optimize_schedule_outcome default_optimizer
     (map (\<lambda>e. e\<lparr>end_time := \<lparr>instant = instant (begin_time e) - 90, weekday = 2\<rparr>\<rparr>) [ev_b, ev_a_late]) =
   Returned [ev_backwards]"
proof -
  from end_never_examined [of default_optimizer "\<lambda>e. \<lparr>instant = instant (begin_time e) - 90, weekday = 2\<rparr>" "[ev_b, ev_a_late]"]
  have "optimize_schedule_outcome default_optimizer
     (map (\<lambda>e. e\<lparr>end_time := \<lparr>instant = instant (begin_time e) - 90, weekday = 2\<rparr>\<rparr>) [ev_b, ev_a_late]) =
     Returned (map (\<lambda>e. e\<lparr>end_time := \<lparr>instant = instant (begin_time e) - 90, weekday = 2\<rparr>\<rparr>) [ev_a_late])"
    unfolding pair_reduced .
  then show ?thesis by (simp add: ev_backwards_def sample_events mk_event_def)
qed

text \<open>
  The claim as the specification states it fails on a feed with an event that ends before
  it starts: the call returns, and that event is the one selected.
\<close>

theorem backwards_event_selected:
  "instant (end_time ev_backwards) < instant (begin_time ev_backwards) \<and>
   optimize_schedule_outcome default_optimizer [ev_b, ev_backwards] = Returned [ev_backwards] \<and>
   optimize_schedule_outcome default_optimizer [ev_b, ev_backwards] \<noteq> Raised ''MalformedOccurrenceError''"
proof -
  have t: "instant (end_time ev_backwards) < instant (begin_time ev_backwards)"
    by (simp add: ev_backwards_def mk_event_def)
  have d: "detect_group default_optimizer ev_backwards = ''A''"
    by (simp add: default_optimizer_with detect_with_config ev_backwards_def label_groep_a)
  have k: "course_code_of ev_backwards = ''5417''"
    by (simp add: course_code_of_char ev_backwards_def key_5417_a)
  have w: "weekday (begin_time ev_backwards) = 2" by (simp add: ev_backwards_def)
  have c: "events_to_choose_from default_optimizer [ev_b, ev_backwards] = [ev_backwards]"
    using d by (simp add: events_to_choose_from_char Let_def default_optimizer_with detect_samples cfg_get_def
          default_config_values)
  have s: "select_optimal_event default_optimizer [ev_b, ev_backwards] ''5417'' = Some ev_backwards"
    unfolding select_optimal_event_def c
    by (simp add: default_optimizer_with cfg_get_def default_config_values py_min_def)
  have "map Some (optimize_schedule default_optimizer [ev_b, ev_backwards]) = map Some [ev_backwards]"
    unfolding optimize_schedule_picks
    by (simp add: week_skipped week_days week_keys s k w)
  then have "optimize_schedule default_optimizer [ev_b, ev_backwards] = [ev_backwards]"
    unfolding inj_map_eq_map [OF inj_Some] .
  then show ?thesis using t by (simp add: optimize_schedule_outcome_def)
qed

section \<open>The reverse phrasing\<close>




end
